theory Spec2Isabelle
  imports Main
begin

section \<open>JavaScript values\<close>

text \<open>
  The values that flow through \<^verbatim>\<open>src/index.js\<close>: sources, state objects, paths, update
  values and command trees. Numbers are the integers (no fractions, no NaN); an object is the
  list of its own enumerable properties in enumeration order, as \<^verbatim>\<open>Object.keys\<close> returns
  them. Properties inherited from \<^verbatim>\<open>Object.prototype\<close> are not part of an object; where
  the source looks a property up through the prototype chain, the model says so at that place.
\<close>

datatype jsval =
    JUndefined
  | JNull
  | JBool bool
  | JNum int
  | JStr string
  | JArr "jsval list"
  | JObj "(string \<times> jsval) list"

type_synonym obj = "(string \<times> jsval) list"

text \<open>Every \<^verbatim>\<open>throw\<close> that can leave the module is a value.\<close>

datatype error =
    NotCallable     \<comment> \<open>TypeError: \<^verbatim>\<open>commands[type]\<close> is not a function\<close>
  | NoShift         \<comment> \<open>TypeError: \<^verbatim>\<open>path.shift\<close> on a value that has no such method\<close>
  | NullMember      \<comment> \<open>TypeError: member access on \<^verbatim>\<open>undefined\<close> or \<^verbatim>\<open>null\<close>\<close>
  | ApplierRejects  \<comment> \<open>the patch applier refuses the command tree or its target\<close>
  | Unmodelled      \<comment> \<open>behaviour of the run time that this model does not follow\<close>

text \<open>Truthiness, as \<^verbatim>\<open>if (path)\<close>, \<^verbatim>\<open>!!v\<close> and \<^verbatim>\<open>!remainPath\<close> test it.\<close>

fun truthy :: "jsval \<Rightarrow> bool" where
  "truthy JUndefined = False"
| "truthy JNull = False"
| "truthy (JBool b) = b"
| "truthy (JNum n) = (n \<noteq> 0)"
| "truthy (JStr s) = (s \<noteq> [])"
| "truthy (JArr xs) = True"
| "truthy (JObj kvs) = True"

subsection \<open>Property keys\<close>

definition digit_char :: "nat \<Rightarrow> char" where
  "digit_char d = ''0123456789'' ! (d mod 10)"

fun string_of_nat :: "nat \<Rightarrow> string" where
  "string_of_nat n =
     (if n < 10 then [digit_char n] else string_of_nat (n div 10) @ [digit_char (n mod 10)])"

declare string_of_nat.simps [simp del]

definition string_of_int :: "int \<Rightarrow> string" where
  "string_of_int i = (if i < 0 then CHR ''-'' # string_of_nat (nat (- i)) else string_of_nat (nat i))"

fun join_with :: "string \<Rightarrow> string list \<Rightarrow> string" where
  "join_with sep [] = []"
| "join_with sep [s] = s"
| "join_with sep (s # t # ts) = s @ sep @ join_with sep (t # ts)"

text \<open>
  \<^verbatim>\<open>obj[key]\<close> turns \<^verbatim>\<open>key\<close> into a property name with ToString: an array joins its
  elements with a comma (\<^verbatim>\<open>undefined\<close> and \<^verbatim>\<open>null\<close> elements as the empty string), a plain
  object is \<^verbatim>\<open>[object Object]\<close>. A number is named by its decimal digits, which is its
  name in JavaScript as long as its magnitude is below \<^verbatim>\<open>1e21\<close>; larger numbers are
  named in exponent form there, and their names are not followed here.
\<close>

fun ToString :: "jsval \<Rightarrow> string" where
  "ToString JUndefined = ''undefined''"
| "ToString JNull = ''null''"
| "ToString (JBool b) = (if b then ''true'' else ''false'')"
| "ToString (JNum n) = string_of_int n"
| "ToString (JStr s) = s"
| "ToString (JArr xs) =
     join_with '','' (map (\<lambda>x. if x = JUndefined \<or> x = JNull then [] else ToString x) xs)"
| "ToString (JObj kvs) = ''[object Object]''"

subsection \<open>Objects\<close>

definition is_digit :: "char \<Rightarrow> bool" where
  "is_digit c = (c \<in> set ''0123456789'')"

definition digit_val :: "char \<Rightarrow> int" where
  "digit_val c = of_char c - 48"

definition int_of_digits :: "string \<Rightarrow> int" where
  "int_of_digits s = foldl (\<lambda>n c. 10 * n + digit_val c) 0 s"

text \<open>
  An array index is a canonical decimal numeral below \<^verbatim>\<open>2^32 - 1\<close>. Such keys are
  enumerated first, in ascending order; all other keys follow in insertion order.
\<close>

definition array_index :: "string \<Rightarrow> nat option" where
  "array_index s =
     (if s \<noteq> [] \<and> list_all is_digit s \<and> (length s = 1 \<or> hd s \<noteq> CHR ''0'')
         \<and> int_of_digits s < 4294967295
      then Some (nat (int_of_digits s)) else None)"

definition has_own :: "string \<Rightarrow> obj \<Rightarrow> bool" where
  "has_own k kvs = (map_of kvs k \<noteq> None)"

definition get_own :: "obj \<Rightarrow> string \<Rightarrow> jsval" where
  "get_own kvs k = (case map_of kvs k of Some v \<Rightarrow> v | None \<Rightarrow> JUndefined)"

fun replace_own :: "string \<Rightarrow> jsval \<Rightarrow> obj \<Rightarrow> obj" where
  "replace_own k v [] = []"
| "replace_own k v ((k', v') # rest) =
     (if k' = k then (k, v) # rest else (k', v') # replace_own k v rest)"

fun insert_index :: "nat \<Rightarrow> string \<Rightarrow> jsval \<Rightarrow> obj \<Rightarrow> obj" where
  "insert_index n k v [] = [(k, v)]"
| "insert_index n k v ((k', v') # rest) =
     (case array_index k' of
        Some m \<Rightarrow> if m < n then (k', v') # insert_index n k v rest
                  else (k, v) # (k', v') # rest
      | None \<Rightarrow> (k, v) # (k', v') # rest)"

text \<open>\<^verbatim>\<open>o[k] = v\<close> on an object: an existing property keeps its place.\<close>

definition put :: "string \<Rightarrow> jsval \<Rightarrow> obj \<Rightarrow> obj" where
  "put k v kvs =
     (if has_own k kvs then replace_own k v kvs
      else case array_index k of
             Some n \<Rightarrow> insert_index n k v kvs
           | None \<Rightarrow> kvs @ [(k, v)])"

definition Object_keys :: "obj \<Rightarrow> string list" where
  "Object_keys kvs = map fst kvs"

text \<open>\<^verbatim>\<open>Object.assign(target, source)\<close>: every own property of the source is written.\<close>

definition Object_assign :: "obj \<Rightarrow> obj \<Rightarrow> obj" where
  "Object_assign target source = fold (\<lambda>(k, v) t. put k v t) source target"

section \<open>Path resolver\<close>

definition is_delim :: "char \<Rightarrow> bool" where
  "is_delim c = (c = CHR ''.'' \<or> c = CHR ''['' \<or> c = CHR '']'')"

text \<open>
  \<^verbatim>\<open>path.split(/\.|\[|\]/)\<close>: the pieces between the delimiters, empty pieces included;
  the empty string gives one empty piece.
\<close>

fun split_path :: "string \<Rightarrow> string list" where
  "split_path [] = [[]]"
| "split_path (c # cs) =
     (if is_delim c then [] # split_path cs
      else case split_path cs of
             [] \<Rightarrow> [[c]]
           | t # ts \<Rightarrow> (c # t) # ts)"

text \<open>
  \<^verbatim>\<open>getPathArray\<close>: a string is split and its falsy (empty) pieces are filtered out;
  anything else is returned as it is.
\<close>

fun getPathArray :: "jsval \<Rightarrow> jsval" where
  "getPathArray (JStr s) = JArr (filter truthy (map JStr (split_path s)))"
| "getPathArray path = path"

text \<open>
  The tokens of a path string in the words of the specification: the maximal runs of
  characters that are not delimiters, in order.
\<close>

function tokens_spec :: "string \<Rightarrow> string list" where
  "tokens_spec s =
     (let s' = dropWhile is_delim s
      in if s' = [] then []
         else takeWhile (\<lambda>c. \<not> is_delim c) s' # tokens_spec (dropWhile (\<lambda>c. \<not> is_delim c) s'))"
  by pat_completeness auto
termination
proof (relation "measure length")
  show "wf (measure length)" by simp
next
  fix s s' :: string
  assume s': "s' = dropWhile is_delim s" and ne: "s' \<noteq> []"
  have "length (dropWhile (\<lambda>c. \<not> is_delim c) s') < length s'"
  proof (cases s')
    case Nil
    with ne show ?thesis by simp
  next
    case (Cons c cs)
    have "\<not> is_delim c"
      using s' Cons hd_dropWhile [of is_delim s] by (metis list.sel(1) list.simps(3))
    then have "dropWhile (\<lambda>c. \<not> is_delim c) s' = dropWhile (\<lambda>c. \<not> is_delim c) cs"
      using Cons by simp
    then show ?thesis
      using Cons length_dropWhile_le [of "\<lambda>c. \<not> is_delim c" cs] by simp
  qed
  moreover have "length s' \<le> length s"
    using s' length_dropWhile_le by metis
  ultimately show "(dropWhile (\<lambda>c. \<not> is_delim c) s', s) \<in> measure length"
    by simp
qed

declare tokens_spec.simps [simp del]

section \<open>Update constructor\<close>

text \<open>The command table: one builder per operation. An operation tag is a string.\<close>

definition commands :: "(string \<times> (jsval \<Rightarrow> jsval)) list" where
  "commands =
     [(''set'', \<lambda>value. JObj [(''$set'', value)]),
      (''push'', \<lambda>value. JObj [(''$push'', JArr [value])]),
      (''splice'', \<lambda>value. JObj [(''$splice'', JArr [JArr [value, JNum 1]])])]"

text \<open>
  \<^verbatim>\<open>commands\<close> is an object literal, so \<^verbatim>\<open>commands[type]\<close> also finds what
  \<^verbatim>\<open>Object.prototype\<close> provides under these names.
\<close>

definition Object_prototype_names :: "string list" where
  "Object_prototype_names =
     [''constructor'', ''hasOwnProperty'', ''isPrototypeOf'', ''propertyIsEnumerable'',
      ''toLocaleString'', ''toString'', ''valueOf'', ''__proto__'',
      ''__defineGetter__'', ''__defineSetter__'', ''__lookupGetter__'', ''__lookupSetter__'']"

text \<open>
  \<^verbatim>\<open>commands[type](value)\<close> for a name that is not a builder of the table. A name that
  is found nowhere yields \<^verbatim>\<open>undefined\<close>, and calling it throws. \<^verbatim>\<open>commands.constructor\<close>
  is \<^verbatim>\<open>Object\<close>, which returns an object argument as it is and a new empty object for
  \<^verbatim>\<open>undefined\<close> and \<^verbatim>\<open>null\<close>; \<^verbatim>\<open>commands.__proto__\<close> is an object, not a function.
\<close>

definition inherited_call :: "string \<Rightarrow> jsval \<Rightarrow> error + jsval" where
  "inherited_call type value =
     (if type \<notin> set Object_prototype_names then Inl NotCallable
      else if type = ''constructor'' then
        (case value of
           JObj kvs \<Rightarrow> Inr value
         | JArr xs \<Rightarrow> Inr value
         | JUndefined \<Rightarrow> Inr (JObj [])
         | JNull \<Rightarrow> Inr (JObj [])
         | _ \<Rightarrow> Inl Unmodelled)
      else if type = ''toString'' \<or> type = ''toLocaleString'' then Inr (JStr ''[object Object]'')
      else if type = ''hasOwnProperty'' \<or> type = ''propertyIsEnumerable'' then
        Inr (JBool (map_of commands (ToString value) \<noteq> None))
      else if type = ''isPrototypeOf'' then Inr (JBool False)
      else if type = ''__proto__'' then Inl NotCallable
      else Inl Unmodelled)"

definition getImmutabilitySugarCommand :: "string \<Rightarrow> jsval \<Rightarrow> error + jsval" where
  "getImmutabilitySugarCommand type value =
     (case map_of commands type of
        Some builder \<Rightarrow> Inr (builder value)
      | None \<Rightarrow> inherited_call type value)"

text \<open>
  \<^verbatim>\<open>temp[key] = v\<close> where \<^verbatim>\<open>temp\<close> is the object reached from \<^verbatim>\<open>target\<close> along the
  keys \<^verbatim>\<open>addr\<close>: the assignment is seen through \<^verbatim>\<open>target\<close>.
\<close>

fun assign_at :: "jsval \<Rightarrow> string list \<Rightarrow> string \<Rightarrow> jsval \<Rightarrow> jsval" where
  "assign_at (JObj kvs) [] key v = JObj (put key v kvs)"
| "assign_at (JObj kvs) (a # addr) key v =
     (case map_of kvs a of
        Some child \<Rightarrow> JObj (put a (assign_at child addr key v) kvs)
      | None \<Rightarrow> JObj kvs)"
| "assign_at other addr key v = other"

text \<open>
  \<^verbatim>\<open>getNestedData(path, value)\<close>. The result is the pair of the returned target and of
  \<^verbatim>\<open>path\<close> as the caller finds it afterwards: \<^verbatim>\<open>path.pop()\<close> works on the caller's
  array. \<^verbatim>\<open>pop\<close> on an empty array returns \<^verbatim>\<open>undefined\<close>. An assignment
  \<^verbatim>\<open>temp[key] = v\<close> creates the own property \<^verbatim>\<open>key\<close>, as it does in JavaScript for
  every key but \<^verbatim>\<open>__proto__\<close>, whose assignment replaces the prototype instead; a path
  with that key is not followed here.
\<close>

definition getNestedData :: "jsval \<Rightarrow> jsval \<Rightarrow> jsval \<times> jsval" where
  "getNestedData path value =
     (if truthy path then
        (case path of
           JArr ks \<Rightarrow>
             let lastKey = (if ks = [] then JUndefined else last ks);
                 popped = butlast ks;
                 (target, temp) =
                   fold (\<lambda>key (target, temp).
                           (assign_at target temp (ToString key) (JObj []), temp @ [ToString key]))
                     popped (JObj [], [])
             in (assign_at target temp (ToString lastKey) value, JArr popped)
         | _ \<Rightarrow> (assign_at (JObj []) [] (ToString path) value, path))
      else (value, path))"

definition getImmutabilitySugar :: "string \<Rightarrow> jsval \<Rightarrow> jsval \<Rightarrow> (error + jsval) \<times> jsval" where
  "getImmutabilitySugar type path value =
     (case getImmutabilitySugarCommand type value of
        Inl e \<Rightarrow> (Inl e, path)
      | Inr command \<Rightarrow>
          (let (target, path') = getNestedData path command in (Inr target, path')))"

section \<open>The patch applier\<close>

text \<open>
  Modelled from the spec: \<^verbatim>\<open>immutabilityUpdate\<close> is the imported package
  \<^verbatim>\<open>immutability-helper\<close>, whose code is not in the repository; this section is its
  model. The specification asks of it \<^verbatim>\<open>apply(source, commandTree)\<close> with three
  primitive commands, replace-whole-value (\<^verbatim>\<open>$set\<close>), append-to-sequence
  (\<^verbatim>\<open>$push\<close>) and remove-at-index (\<^verbatim>\<open>$splice\<close>, whose payload is a list of argument
  lists for \<^verbatim>\<open>Array.prototype.splice\<close>), arbitrary nesting, and a new value in which only
  the addressed subtree is replaced; a target of the wrong shape is the applier's own failure.
\<close>

text \<open>
  \<^verbatim>\<open>Array.prototype.splice(start, deleteCount, ...items)\<close> with integer arguments: a
  negative start counts from the end, and both are clamped to the array. Arguments that are
  no integers would be coerced to numbers first; that coercion is not followed here.
\<close>

definition Array_splice :: "jsval list \<Rightarrow> int \<Rightarrow> int \<Rightarrow> jsval list \<Rightarrow> jsval list" where
  "Array_splice xs start deleteCount items =
     (let len = int (length xs);
          s = (if start < 0 then max (len + start) 0 else min start len);
          d = min (max deleteCount 0) (len - s)
      in take (nat s) xs @ items @ drop (nat (s + d)) xs)"

fun splice_all :: "jsval list \<Rightarrow> jsval list \<Rightarrow> error + jsval" where
  "splice_all xs [] = Inr (JArr xs)"
| "splice_all xs (JArr (JNum start # JNum deleteCount # items) # rest) =
     splice_all (Array_splice xs start deleteCount items) rest"
| "splice_all xs (JArr args # rest) = Inl Unmodelled"
| "splice_all xs (other # rest) = Inl ApplierRejects"

definition command_set :: "jsval \<Rightarrow> obj \<Rightarrow> error + jsval" where
  "command_set value spec = (if length spec = 1 then Inr value else Inl ApplierRejects)"

definition command_push :: "jsval \<Rightarrow> jsval \<Rightarrow> error + jsval" where
  "command_push value nextObject =
     (case nextObject of
        JArr xs \<Rightarrow> (case value of JArr items \<Rightarrow> Inr (JArr (xs @ items)) | _ \<Rightarrow> Inl ApplierRejects)
      | _ \<Rightarrow> Inl ApplierRejects)"

definition command_splice :: "jsval \<Rightarrow> jsval \<Rightarrow> error + jsval" where
  "command_splice value nextObject =
     (case nextObject of
        JArr xs \<Rightarrow> (case value of JArr argss \<Rightarrow> splice_all xs argss | _ \<Rightarrow> Inl ApplierRejects)
      | _ \<Rightarrow> Inl ApplierRejects)"

definition other_commands :: "string list" where
  "other_commands = [''$unshift'', ''$merge'', ''$apply'', ''$unset'', ''$toggle'', ''$add'', ''$remove'']"

definition get_member :: "jsval \<Rightarrow> string \<Rightarrow> error + jsval" where
  "get_member object key =
     (case object of
        JObj kvs \<Rightarrow> Inr (get_own kvs key)
      | JArr xs \<Rightarrow>
          (case array_index key of
             Some i \<Rightarrow> if i < length xs then Inr (xs ! i) else Inl Unmodelled
           | None \<Rightarrow> Inl Unmodelled)
      | JUndefined \<Rightarrow> Inl NullMember
      | JNull \<Rightarrow> Inl NullMember
      | _ \<Rightarrow> Inl Unmodelled)"

definition set_member :: "jsval \<Rightarrow> string \<Rightarrow> jsval \<Rightarrow> error + jsval" where
  "set_member object key v =
     (case object of
        JObj kvs \<Rightarrow> Inr (JObj (put key v kvs))
      | JArr xs \<Rightarrow>
          (case array_index key of
             Some i \<Rightarrow> if i < length xs then Inr (JArr (xs[i := v])) else Inl Unmodelled
           | None \<Rightarrow> Inl Unmodelled)
      | _ \<Rightarrow> Inl Unmodelled)"

text \<open>
  Modelled from the spec: the applier itself. The keys of the command tree are taken in
  order; a command key is applied to the value reached so far, and any other key descends
  into that member of the source and stores the result of the sub-tree there. The source is
  never changed: values are immutable trees here. A member of an array is an index within
  its bounds.
\<close>

function (sequential) immutabilityUpdate :: "jsval \<Rightarrow> jsval \<Rightarrow> error + jsval"
  and applyKeys :: "jsval \<Rightarrow> jsval \<Rightarrow> obj \<Rightarrow> obj \<Rightarrow> error + jsval" where
  "immutabilityUpdate object (JObj spec) = applyKeys object object spec spec"
| "immutabilityUpdate object other = Inl ApplierRejects"
| "applyKeys object nextObject spec [] = Inr nextObject"
| "applyKeys object nextObject spec ((key, sub) # rest) =
     (case (if key = ''$set'' then command_set sub spec
            else if key = ''$push'' then command_push sub nextObject
            else if key = ''$splice'' then command_splice sub nextObject
            else if key \<in> set other_commands then Inl Unmodelled
            else case get_member object key of
                   Inl e \<Rightarrow> Inl e
                 | Inr child \<Rightarrow>
                     (case immutabilityUpdate child sub of
                        Inl e \<Rightarrow> Inl e
                      | Inr nextValueForKey \<Rightarrow> set_member nextObject key nextValueForKey))
      of Inl e \<Rightarrow> Inl e
       | Inr nextObject' \<Rightarrow> applyKeys object nextObject' spec rest)"
  by pat_completeness auto
termination
  by (relation "measure (\<lambda>x. case x of
           Inl (object, spec) \<Rightarrow> size spec
         | Inr (object, nextObject, spec, rest) \<Rightarrow> size_list (size_prod (\<lambda>_. 0) size) rest)")
     auto

section \<open>Apply layer\<close>

text \<open>
  \<^verbatim>\<open>updateHelper.update(source, type, path, value)\<close>, with the caller's \<^verbatim>\<open>path\<close> after
  the call as second component. The command builder is looked up before the path is touched.
\<close>

definition updateHelper_update :: "jsval \<Rightarrow> string \<Rightarrow> jsval \<Rightarrow> jsval \<Rightarrow> (error + jsval) \<times> jsval" where
  "updateHelper_update source type path value =
     (case getImmutabilitySugar type path value of
        (Inl e, path') \<Rightarrow> (Inl e, path')
      | (Inr sugar, path') \<Rightarrow> (immutabilityUpdate source sugar, path'))"

text \<open>
  The exported \<^verbatim>\<open>update\<close> only dispatches: called on a component instance it is
  \<^verbatim>\<open>updateState\<close>, the bound update, and otherwise \<^verbatim>\<open>updateSilent\<close>, the pure one.
  The two are the entry points of the model.
\<close>

text \<open>
  \<^verbatim>\<open>updateSilent\<close>, the pure update. \<^verbatim>\<open>getPathArray\<close> hands back the caller's own array
  when the path is no string, so what \<^verbatim>\<open>updateHelper.update\<close> does to it is what the
  caller sees; the array split from a string is private to the call.
\<close>

definition updateSilent :: "jsval \<Rightarrow> string \<Rightarrow> jsval \<Rightarrow> jsval \<Rightarrow> (error + jsval) \<times> jsval" where
  "updateSilent source type path value =
     (let (result, pathArray') = updateHelper_update source type (getPathArray path) value
      in (result, case path of JStr s \<Rightarrow> path | _ \<Rightarrow> pathArray'))"

section \<open>State-binding layer\<close>

fun isPlainObject :: "jsval \<Rightarrow> bool" where
  "isPlainObject (JObj kvs) = True"
| "isPlainObject other = False"

text \<open>
  \<^verbatim>\<open>getDestructPath\<close>: the first key, the remaining path (or \<^verbatim>\<open>null\<close>), and the path
  array as \<^verbatim>\<open>shift\<close> leaves it. A returned remaining path is that same array, which is
  the caller's own whenever the caller passed an array. \<^verbatim>\<open>shift\<close> on an empty array
  returns \<^verbatim>\<open>undefined\<close>; a path that is neither a string nor an array has no \<^verbatim>\<open>shift\<close>.
\<close>

definition getDestructPath :: "jsval \<Rightarrow> error + (jsval \<times> jsval \<times> jsval)" where
  "getDestructPath path =
     (case getPathArray path of
        JArr ks \<Rightarrow>
          let prop = (case ks of [] \<Rightarrow> JUndefined | k # rest \<Rightarrow> k);
              shifted = tl ks
          in Inr (prop, if shifted = [] then JNull else JArr shifted, JArr shifted)
      | JUndefined \<Rightarrow> Inl NullMember
      | JNull \<Rightarrow> Inl NullMember
      | _ \<Rightarrow> Inl NoShift)"

text \<open>
  The host: a component instance with its committed \<^verbatim>\<open>state\<close>, the queue of pending
  state fragments of its internal instance (\<^verbatim>\<open>None\<close> when there is no internal instance or
  no queue), and the cache property \<^verbatim>\<open>__lastState\<close>.
\<close>

record host =
  state :: obj
  pendingStateQueue :: "obj list option"
  LAST_STATE :: "obj option"

text \<open>
  Modelled from the spec: \<^verbatim>\<open>setState\<close> belongs to the host framework, whose code is not in
  the repository. The specification asks for a commit capability that schedules the
  fragment, and for a queue of pending fragments that the host exposes while its commits are
  batched: the fragment is appended to the pending queue, which is created when there is none.
\<close>

definition setState :: "obj \<Rightarrow> host \<Rightarrow> host" where
  "setState fragment instance =
     instance\<lparr>pendingStateQueue :=
       Some ((case pendingStateQueue instance of None \<Rightarrow> [] | Some queue \<Rightarrow> queue) @ [fragment])\<rparr>"

text \<open>
  \<^verbatim>\<open>getCachedLastState\<close>. \<^verbatim>\<open>queue.pop()\<close> takes the last pending fragment out of the
  host's queue (\<^verbatim>\<open>undefined\<close> from an empty queue, which \<^verbatim>\<open>Object.assign\<close> skips); an
  array is truthy even when it is empty.
\<close>

definition getCachedLastState :: "host \<Rightarrow> obj option \<times> host" where
  "getCachedLastState instance =
     (case pendingStateQueue instance of
        Some queue \<Rightarrow>
          let popped = (if queue = [] then [] else last queue);
              cache = (case LAST_STATE instance of
                         Some cached \<Rightarrow> Object_assign cached popped
                       | None \<Rightarrow> Object_assign (Object_assign [] (state instance)) popped)
          in (Some cache,
              instance\<lparr>pendingStateQueue := Some (butlast queue), LAST_STATE := Some cache\<rparr>)
      | None \<Rightarrow> (None, instance\<lparr>LAST_STATE := None\<rparr>))"

text \<open>
  The general path, the inner \<^verbatim>\<open>else\<close> branch of \<^verbatim>\<open>updateNextState\<close>, on the pair of
  \<^verbatim>\<open>lastState\<close> and \<^verbatim>\<open>nextState\<close>; the third component is the remaining path after
  the call. \<^verbatim>\<open>prop in nextState\<close> is read as an own property of \<^verbatim>\<open>nextState\<close>. The
  two agree for every property that \<^verbatim>\<open>Object.prototype\<close> does not provide;
  \<^verbatim>\<open>nextState\<close> starts as \<^verbatim>\<open>{}\<close> and inherits the others (\<^verbatim>\<open>toString\<close>,
  \<^verbatim>\<open>constructor\<close>, ...), for which the source takes the roll-back branch at once and
  works on the inherited function. Updates of properties with those names are not followed
  here.
\<close>

definition generalPath ::
  "string \<Rightarrow> jsval \<Rightarrow> jsval \<Rightarrow> jsval \<Rightarrow> obj \<times> obj \<Rightarrow> error option \<times> (obj \<times> obj) \<times> jsval" where
  "generalPath type prop remainPath value st =
     (let (lastState, nextState) = st;
          lastState' =
            (if has_own (ToString prop) nextState
             then put (ToString prop) (get_own nextState (ToString prop)) lastState
             else lastState);
          (result, remainPath') =
            updateHelper_update (get_own lastState' (ToString prop)) type remainPath value
      in case result of
           Inl e \<Rightarrow> (Some e, (lastState', nextState), remainPath')
         | Inr v \<Rightarrow> (None, (lastState', put (ToString prop) v nextState), remainPath'))"

text \<open>
  One update of one path, the outer \<^verbatim>\<open>else\<close> branch of \<^verbatim>\<open>updateNextState\<close>. The third
  component is the caller's path after the call: an array has lost its first element to
  \<^verbatim>\<open>shift\<close>, and what is left of it was handed on to \<^verbatim>\<open>updateHelper.update\<close> as the
  remaining path.
\<close>

definition updateProp ::
  "string \<Rightarrow> jsval \<Rightarrow> jsval \<Rightarrow> obj \<times> obj \<Rightarrow> error option \<times> (obj \<times> obj) \<times> jsval" where
  "updateProp type path value st =
     (let (lastState, nextState) = st in
      case getDestructPath path of
        Inl e \<Rightarrow> (Some e, (lastState, nextState), path)
      | Inr (prop, remainPath, shifted) \<Rightarrow>
          if \<not> truthy remainPath \<and> type = ''set'' then
            (None, (lastState, put (ToString prop) value nextState),
             case path of JArr ks \<Rightarrow> shifted | _ \<Rightarrow> path)
          else
            let (err, st', remainPath') = generalPath type prop remainPath value (lastState, nextState)
            in (err, st',
                case path of
                  JArr ks \<Rightarrow> if remainPath = JNull then shifted else remainPath'
                | _ \<Rightarrow> path))"

text \<open>
  \<^verbatim>\<open>updateNextState\<close>: a plain object is walked key by key, each key being passed on as
  the path of a call of its own; an exception ends the walk.
\<close>

function updateNextState ::
    "string \<Rightarrow> jsval \<Rightarrow> jsval \<Rightarrow> obj \<times> obj \<Rightarrow> error option \<times> (obj \<times> obj) \<times> jsval"
  and forEach_key ::
    "string \<Rightarrow> obj \<Rightarrow> string list \<Rightarrow> obj \<times> obj \<Rightarrow> error option \<times> (obj \<times> obj)" where
  "updateNextState type path value st =
     (case path of
        JObj kvs \<Rightarrow>
          (let (err, st') = forEach_key type kvs (Object_keys kvs) st in (err, st', path))
      | _ \<Rightarrow> updateProp type path value st)"
| "forEach_key type kvs [] st = (None, st)"
| "forEach_key type kvs (key # keys) st =
     (case updateNextState type (JStr key) (get_own kvs key) st of
        (Some e, st', p) \<Rightarrow> (Some e, st')
      | (None, st', p) \<Rightarrow> forEach_key type kvs keys st')"
  by pat_completeness auto
termination
  by (relation "measure (\<lambda>x. case x of
           Inl (type, path, value, st) \<Rightarrow>
             (case path of JObj kvs \<Rightarrow> length (Object_keys kvs) + 2 | _ \<Rightarrow> 0)
         | Inr (type, kvs, keys, st) \<Rightarrow> length keys + 1)")
     auto

declare updateNextState.simps [simp del]

text \<open>
  \<^verbatim>\<open>updateState\<close>, the bound update: result, host and caller's path after the call.
  \<^verbatim>\<open>lastState\<close> is the cache object when there is one and the host's \<^verbatim>\<open>state\<close> object
  itself otherwise, so an assignment to \<^verbatim>\<open>lastState[prop]\<close> lands in that object.
  \<^verbatim>\<open>setState\<close> is reached only when nothing was thrown.
\<close>

definition updateState :: "host \<Rightarrow> string \<Rightarrow> jsval \<Rightarrow> jsval \<Rightarrow> (error + jsval) \<times> host \<times> jsval" where
  "updateState this type path value =
     (let (cached, this1) = getCachedLastState this;
          lastState = (case cached of Some cache \<Rightarrow> cache | None \<Rightarrow> state this1);
          (err, (lastState', nextState), path') = updateNextState type path value (lastState, []);
          this2 = (case cached of
                     Some cache \<Rightarrow> this1\<lparr>LAST_STATE := Some lastState'\<rparr>
                   | None \<Rightarrow> this1\<lparr>state := lastState'\<rparr>)
      in case err of
           Some e \<Rightarrow> (Inl e, this2, path')
         | None \<Rightarrow>
             (let keys = Object_keys nextState
              in (Inr (if length keys = 1 then get_own nextState (hd keys) else JObj nextState),
                  setState nextState this2, path')))"

section \<open>Vocabulary of the properties\<close>

text \<open>
  The command tree that the specification describes for the keys \<^verbatim>\<open>[k0, ..., kn]\<close>: one
  single-key object per key, the leaf command under the last key.
\<close>

fun single_key_nesting :: "string list \<Rightarrow> jsval \<Rightarrow> jsval" where
  "single_key_nesting [] leaf = leaf"
| "single_key_nesting (k # ks) leaf = JObj [(k, single_key_nesting ks leaf)]"

text \<open>The names that the applier reads as commands rather than as members to descend into.\<close>

definition command_names :: "string list" where
  "command_names = [''$set'', ''$push'', ''$splice''] @ other_commands"


fun path_key :: "jsval \<Rightarrow> bool" where
  "path_key (JStr s) = (s \<noteq> ''__proto__'')"
| "path_key (JNum n) = (0 \<le> n \<and> n \<le> 9007199254740991)"
| "path_key other = False"


text \<open>The value found in a source along a list of keys, and the source with that value replaced.\<close>

fun value_at :: "jsval \<Rightarrow> string list \<Rightarrow> jsval option" where
  "value_at v [] = Some v"
| "value_at v (k # ks) = (case get_member v k of Inr child \<Rightarrow> value_at child ks | Inl e \<Rightarrow> None)"

fun replace_at :: "jsval \<Rightarrow> string list \<Rightarrow> jsval \<Rightarrow> jsval" where
  "replace_at v [] new = new"
| "replace_at v (k # ks) new =
     (case get_member v k of
        Inr child \<Rightarrow> (case set_member v k (replace_at child ks new) of Inr v' \<Rightarrow> v' | Inl e \<Rightarrow> v)
      | Inl e \<Rightarrow> v)"

text \<open>
  A multi-path update in which every value is a literal: the pairs are applied one after the
  other, each as the update of its key with its value, until one fails.
\<close>

fun literal_updates :: "string \<Rightarrow> obj \<Rightarrow> obj \<times> obj \<Rightarrow> error option \<times> (obj \<times> obj)" where
  "literal_updates type [] st = (None, st)"
| "literal_updates type ((key, v) # rest) st =
     (case updateProp type (JStr key) v st of
        (Some e, st', p) \<Rightarrow> (Some e, st')
      | (None, st', p) \<Rightarrow> literal_updates type rest st')"

text \<open>
  The object that a bound update works on as \<^verbatim>\<open>lastState\<close>: the cache when
  \<^verbatim>\<open>getCachedLastState\<close> returns one, the committed state otherwise.
\<close>

definition working_lastState :: "host \<Rightarrow> obj" where
  "working_lastState this =
     (case fst (getCachedLastState this) of
        Some cache \<Rightarrow> cache
      | None \<Rightarrow> state (snd (getCachedLastState this)))"

text \<open>The fragment that \<^verbatim>\<open>setState\<close> received last.\<close>

definition committed :: "host \<Rightarrow> obj option" where
  "committed this =
     (case pendingStateQueue this of
        None \<Rightarrow> None
      | Some queue \<Rightarrow> if queue = [] then None else Some (last queue))"

section \<open>Properties of the path resolver\<close>

lemma split_path_nonempty: "split_path s \<noteq> []"
  by (induction s) (auto split: list.splits)

lemma tokens_spec_delim: "is_delim c \<Longrightarrow> tokens_spec (c # cs) = tokens_spec cs"
  by (subst (1 2) tokens_spec.simps) simp

lemma tokens_spec_Nil: "tokens_spec [] = []"
  by (subst tokens_spec.simps) simp

lemma tokens_spec_nondelim:
  "\<not> is_delim c \<Longrightarrow>
   tokens_spec (c # cs) = (c # takeWhile (\<lambda>c. \<not> is_delim c) cs) # tokens_spec (dropWhile (\<lambda>c. \<not> is_delim c) cs)"
  by (subst tokens_spec.simps) simp

lemma tokens_spec_cases:
  "tokens_spec s =
     (if takeWhile (\<lambda>c. \<not> is_delim c) s = [] then tokens_spec (dropWhile (\<lambda>c. \<not> is_delim c) s)
      else takeWhile (\<lambda>c. \<not> is_delim c) s # tokens_spec (dropWhile (\<lambda>c. \<not> is_delim c) s))"
  by (cases s) (auto simp: tokens_spec_nondelim)

lemma split_path_shape:
  "hd (split_path s) = takeWhile (\<lambda>c. \<not> is_delim c) s \<and>
   filter (\<lambda>t. t \<noteq> []) (tl (split_path s)) = tokens_spec (dropWhile (\<lambda>c. \<not> is_delim c) s)"
proof (induction s)
  case Nil
  show ?case by (simp add: tokens_spec_Nil)
next
  case (Cons c cs)
  obtain t ts where sp: "split_path cs = t # ts"
    using split_path_nonempty [of cs] by (cases "split_path cs") auto
  show ?case
  proof (cases "is_delim c")
    case True
    have "filter (\<lambda>t. t \<noteq> []) (split_path cs) = tokens_spec cs"
      using Cons sp tokens_spec_cases [of cs] by auto
    with True show ?thesis by (simp add: tokens_spec_delim)
  next
    case False
    with Cons sp show ?thesis by simp
  qed
qed

lemma split_path_tokens: "filter (\<lambda>t. t \<noteq> []) (split_path s) = tokens_spec s"
proof -
  obtain t ts where sp: "split_path s = t # ts"
    using split_path_nonempty [of s] by (cases "split_path s") auto
  then show ?thesis
    using split_path_shape [of s] tokens_spec_cases [of s] by auto
qed

lemma filter_truthy_JStr: "filter truthy (map JStr ts) = map JStr (filter (\<lambda>t. t \<noteq> []) ts)"
  by (induction ts) auto

lemma tokens_spec_wellformed:
  "list_all (\<lambda>t. t \<noteq> [] \<and> \<not> list_ex is_delim t) (tokens_spec s)"
proof (induction s rule: tokens_spec.induct)
  case (1 s)
  show ?case
  proof (cases "dropWhile is_delim s = []")
    case True
    then show ?thesis by (subst tokens_spec.simps) simp
  next
    case False
    then obtain c cs where dw: "dropWhile is_delim s = c # cs" by (cases "dropWhile is_delim s") auto
    have nd: "\<not> is_delim c" using dw hd_dropWhile [of is_delim s] by (metis list.sel(1) list.simps(3))
    have "\<not> list_ex is_delim (takeWhile (\<lambda>c. \<not> is_delim c) (c # cs))"
      by (metis (mono_tags, lifting) list_ex_iff set_takeWhileD)
    with 1 [OF refl False] dw nd show ?thesis
      by (subst tokens_spec.simps) (simp add: Let_def)
  qed
qed

lemma filter_split_run: "filter P xs = takeWhile P xs @ filter P (dropWhile P xs)"
  by (induction xs) auto

lemma tokens_spec_concat: "concat (tokens_spec s) = filter (\<lambda>c. \<not> is_delim c) s"
proof (induction s rule: tokens_spec.induct)
  case (1 s)
  let ?nd = "\<lambda>c. \<not> is_delim c"
  define d where "d = dropWhile is_delim s"
  have drop: "filter ?nd s = filter ?nd d"
    unfolding d_def by (induction s) auto
  show ?case
  proof (cases "d = []")
    case True
    then have "tokens_spec s = []"
      unfolding d_def by (subst tokens_spec.simps) (simp add: Let_def)
    with True drop show ?thesis by simp
  next
    case False
    then have unfold: "tokens_spec s = takeWhile ?nd d # tokens_spec (dropWhile ?nd d)"
      unfolding d_def by (subst tokens_spec.simps) (simp add: Let_def)
    have ih: "concat (tokens_spec (dropWhile ?nd d)) = filter ?nd (dropWhile ?nd d)"
      using 1 [OF refl] False unfolding d_def by blast
    have "filter ?nd d = takeWhile ?nd d @ filter ?nd (dropWhile ?nd d)"
      by (rule filter_split_run)
    with unfold ih drop show ?thesis by simp
  qed
qed

text \<open>
  C6, as the code has it: \<^verbatim>\<open>getPathArray\<close> returns an absent path (\<^verbatim>\<open>undefined\<close> or
  \<^verbatim>\<open>null\<close>) as it is, and an array as it is; a string becomes the array of its tokens, the
  maximal runs of characters other than \<^verbatim>\<open>.\<close>, \<^verbatim>\<open>[\<close> and \<^verbatim>\<open>]\<close>: no token is
  empty, no token holds a delimiter, and the tokens in their order spell the string without
  its delimiters.
\<close>

theorem getPathArray_normalizes:
  "getPathArray JUndefined = JUndefined \<and> getPathArray JNull = JNull
   \<and> getPathArray (JArr ks) = JArr ks
   \<and> getPathArray (JStr s) = JArr (map JStr (tokens_spec s))
   \<and> list_all (\<lambda>t. t \<noteq> [] \<and> \<not> list_ex is_delim t) (tokens_spec s)
   \<and> concat (tokens_spec s) = filter (\<lambda>c. \<not> is_delim c) s"
  by (simp add: filter_truthy_JStr split_path_tokens tokens_spec_wellformed tokens_spec_concat)

text \<open>
  C6 as stated asks for an empty sequence of keys when the path is absent. The code returns
  \<^verbatim>\<open>null\<close> for \<^verbatim>\<open>null\<close> and \<^verbatim>\<open>undefined\<close> for \<^verbatim>\<open>undefined\<close>.
\<close>

theorem getPathArray_absent_counterexample:
  "getPathArray JNull \<noteq> JArr [] \<and> getPathArray JUndefined \<noteq> JArr []"
  by simp

section \<open>Properties of objects\<close>

lemma map_of_replace_own:
  "map_of (replace_own k v kvs) = (if map_of kvs k = None then map_of kvs else (map_of kvs)(k \<mapsto> v))"
  by (induction kvs) (auto simp: fun_upd_twist)

lemma map_of_insert_index:
  "map_of kvs k = None \<Longrightarrow> map_of (insert_index n k v kvs) = (map_of kvs)(k \<mapsto> v)"
proof (induction kvs)
  case Nil
  show ?case by simp
next
  case (Cons kv kvs)
  obtain k' v' where kv: "kv = (k', v')" by (cases kv)
  from Cons.prems kv have ne: "k' \<noteq> k" and rest: "map_of kvs k = None"
    by (auto split: if_splits)
  show ?case
    using Cons.IH [OF rest] ne kv by (auto simp: fun_upd_twist split: option.splits)
qed

lemma map_of_put: "map_of (put k v kvs) = (map_of kvs)(k \<mapsto> v)"
proof (cases "map_of kvs k")
  case None
  then have "map_of (kvs @ [(k, v)]) = (map_of kvs)(k \<mapsto> v)"
    by (auto simp: map_add_def fun_eq_iff split: option.splits)
  with None show ?thesis
    by (simp add: put_def has_own_def map_of_insert_index split: option.splits)
next
  case (Some a)
  then show ?thesis by (simp add: put_def has_own_def map_of_replace_own)
qed

lemma get_own_put_same: "get_own (put k v kvs) k = v"
  by (simp add: get_own_def map_of_put)

lemma get_own_put_other: "k' \<noteq> k \<Longrightarrow> get_own (put k v kvs) k' = get_own kvs k'"
  by (simp add: get_own_def map_of_put)


lemma put_Nil: "put k v [] = [(k, v)]"
  by (simp add: put_def has_own_def split: option.splits)

lemma put_single_same: "put k v [(k, w)] = [(k, v)]"
  by (simp add: put_def has_own_def)

section \<open>Properties of the update constructor\<close>

lemma single_key_nesting_append:
  "single_key_nesting (ks @ [k]) leaf = single_key_nesting ks (JObj [(k, leaf)])"
  by (induction ks) auto

lemma assign_at_nesting:
  "assign_at (single_key_nesting addr (JObj [])) addr key v = single_key_nesting (addr @ [key]) v"
  by (induction addr) (auto simp: put_Nil put_single_same)

lemma forEach_nesting:
  "fold (\<lambda>key (target, temp).
           (assign_at target temp (ToString key) (JObj []), temp @ [ToString key]))
     ks (single_key_nesting addr (JObj []), addr)
   = (single_key_nesting (addr @ map ToString ks) (JObj []), addr @ map ToString ks)"
  by (induction ks arbitrary: addr) (auto simp: assign_at_nesting)

lemma getNestedData_array:
  "ks \<noteq> [] \<Longrightarrow>
   getNestedData (JArr ks) leaf = (single_key_nesting (map ToString ks) leaf, JArr (butlast ks))"
proof -
  assume ne: "ks \<noteq> []"
  have "map ToString (butlast ks) @ [ToString (last ks)] = map ToString ks"
    using ne by (metis append_butlast_last_id list.simps(8,9) map_append)
  then show ?thesis
    using ne forEach_nesting [of "butlast ks" "[]"]
    by (simp add: getNestedData_def assign_at_nesting)
qed

lemma getNestedData_absent: "\<not> truthy path \<Longrightarrow> getNestedData path leaf = (leaf, path)"
  by (simp add: getNestedData_def)

lemma getNestedData_empty_array: "getNestedData (JArr []) leaf = (JObj [(''undefined'', leaf)], JArr [])"
  by (simp add: getNestedData_def put_Nil)

section \<open>Properties of the patch applier\<close>

lemma applier_set: "immutabilityUpdate object (JObj [(''$set'', v)]) = Inr v"
  by (simp add: command_set_def)

lemma applier_push:
  "immutabilityUpdate (JArr xs) (JObj [(''$push'', JArr [v])]) = Inr (JArr (xs @ [v]))"
  by (simp add: command_push_def)

lemma applier_splice:
  "immutabilityUpdate (JArr xs) (JObj [(''$splice'', JArr [JArr [JNum n, JNum d]])])
     = Inr (JArr (Array_splice xs n d []))"
  by (simp add: command_splice_def)

lemma applier_descend:
  "key \<notin> set command_names \<Longrightarrow>
   immutabilityUpdate object (JObj [(key, sub)]) =
     (case get_member object key of
        Inl e \<Rightarrow> Inl e
      | Inr child \<Rightarrow>
          (case immutabilityUpdate child sub of
             Inl e \<Rightarrow> Inl e
           | Inr v \<Rightarrow> set_member object key v))"
  by (auto simp: command_names_def split: sum.splits)

lemma set_member_defined:
  "get_member object key = Inr child \<Longrightarrow> \<exists>object'. set_member object key v = Inr object'"
  by (auto simp: get_member_def set_member_def split: jsval.splits option.splits if_splits)

lemma applier_nesting:
  "list_all (\<lambda>k. k \<notin> set command_names) ks \<Longrightarrow> value_at source ks = Some target \<Longrightarrow>
   immutabilityUpdate target leaf = Inr target' \<Longrightarrow>
   immutabilityUpdate source (single_key_nesting ks leaf) = Inr (replace_at source ks target')"
proof (induction ks arbitrary: source)
  case Nil
  then show ?case by simp
next
  case (Cons k ks)
  from Cons.prems obtain child where child: "get_member source k = Inr child"
      and at: "value_at child ks = Some target"
    by (auto split: sum.splits)
  from Cons.prems have k: "k \<notin> set command_names" and ks: "list_all (\<lambda>k. k \<notin> set command_names) ks"
    by simp_all
  have sub: "immutabilityUpdate child (single_key_nesting ks leaf) = Inr (replace_at child ks target')"
    using Cons.IH [OF ks at Cons.prems(3)] .
  obtain source' where set: "set_member source k (replace_at child ks target') = Inr source'"
    using set_member_defined [OF child] by blast
  have "immutabilityUpdate source (single_key_nesting (k # ks) leaf)
          = immutabilityUpdate source (JObj [(k, single_key_nesting ks leaf)])"
    by simp
  also have "\<dots> = Inr source'"
    by (subst applier_descend [OF k]) (simp add: child sub set)
  finally show ?case
    using child set by simp
qed

section \<open>Properties of the apply layer\<close>

lemma getImmutabilitySugarCommand_table:
  "getImmutabilitySugarCommand ''set'' v = Inr (JObj [(''$set'', v)])"
  "getImmutabilitySugarCommand ''push'' v = Inr (JObj [(''$push'', JArr [v])])"
  "getImmutabilitySugarCommand ''splice'' v = Inr (JObj [(''$splice'', JArr [JArr [v, JNum 1]])])"
  by (simp_all add: getImmutabilitySugarCommand_def commands_def)

lemma updateHelper_update_known:
  "getImmutabilitySugarCommand type value = Inr command \<Longrightarrow>
   updateHelper_update source type path value =
     (immutabilityUpdate source (fst (getNestedData path command)), snd (getNestedData path command))"
  by (simp add: updateHelper_update_def getImmutabilitySugar_def split: prod.splits)

lemma Array_splice_one:
  "0 \<le> n \<Longrightarrow> Array_splice xs n 1 [] = take (nat n) xs @ drop (Suc (nat n)) xs"
proof -
  assume n: "0 \<le> n"
  show ?thesis
  proof (cases "n < int (length xs)")
    case True
    with n have "min 1 (int (length xs) - n) = 1" by simp
    moreover have "nat (n + 1) = Suc (nat n)" using n by simp
    ultimately show ?thesis using True n by (simp add: Array_splice_def Let_def min_def)
  next
    case False
    then show ?thesis using n by (simp add: Array_splice_def Let_def min_def)
  qed
qed

text \<open>
  C1, as the code has it: the value handed to \<^verbatim>\<open>splice\<close> is the start index of a removal
  of one element. The path is absent or resolves to at least one key; its keys are keys of a
  path, and none of them is a name that the applier reads as a command.
\<close>

theorem splice_removes_at_index:
  assumes "0 \<le> n"
    and "getPathArray path = JArr ks \<and> ks \<noteq> [] \<or> \<not> truthy (getPathArray path) \<and> ks = []"
    and "list_all path_key ks"
    and "list_all (\<lambda>k. ToString k \<notin> set command_names) ks"
    and "value_at source (map ToString ks) = Some (JArr xs)"
  shows "fst (updateSilent source ''splice'' path (JNum n))
           = Inr (replace_at source (map ToString ks)
                    (JArr (take (nat n) xs @ drop (Suc (nat n)) xs)))"
proof -
  let ?command = "JObj [(''$splice'', JArr [JArr [JNum n, JNum 1]])]"
  let ?keys = "map ToString ks"
  have tree: "fst (getNestedData (getPathArray path) ?command) = single_key_nesting ?keys ?command"
    using assms(2) by (auto simp: getNestedData_array getNestedData_absent)
  have leaf: "immutabilityUpdate (JArr xs) ?command
                = Inr (JArr (take (nat n) xs @ drop (Suc (nat n)) xs))"
    using assms(1) by (simp only: applier_splice Array_splice_one)
  have names: "list_all (\<lambda>k. k \<notin> set command_names) ?keys"
    using assms(4) by (simp add: list_all_iff)
  have "immutabilityUpdate source (single_key_nesting ?keys ?command)
          = Inr (replace_at source ?keys (JArr (take (nat n) xs @ drop (Suc (nat n)) xs)))"
    using applier_nesting [OF names assms(5) leaf] .
  then show ?thesis
    using tree
    by (simp add: updateSilent_def updateHelper_update_known [OF getImmutabilitySugarCommand_table(3)]
          split: prod.splits)
qed

theorem splice_removes_at_index_witness:
  "value_at (JObj [(''list'', JArr [JNum 5, JNum 6, JNum 7])]) [''list'']
     = Some (JArr [JNum 5, JNum 6, JNum 7])
   \<and> fst (updateSilent (JObj [(''list'', JArr [JNum 5, JNum 6, JNum 7])]) ''splice''
          (JStr ''list'') (JNum 1))
     = Inr (JObj [(''list'', JArr [JNum 5, JNum 7])])"
proof -
  let ?source = "JObj [(''list'', JArr [JNum 5, JNum 6, JNum 7])]"
  have h1: "(0::int) \<le> 1" by simp
  have h2: "getPathArray (JStr ''list'') = JArr [JStr ''list''] \<and> [JStr ''list''] \<noteq> []
            \<or> \<not> truthy (getPathArray (JStr ''list'')) \<and> [JStr ''list''] = []"
    by (simp add: is_delim_def)
  have h3: "list_all path_key [JStr ''list'']"
    by simp
  have h4: "list_all (\<lambda>k. ToString k \<notin> set command_names) [JStr ''list'']"
    by (simp add: command_names_def other_commands_def)
  have h5: "value_at ?source (map ToString [JStr ''list'']) = Some (JArr [JNum 5, JNum 6, JNum 7])"
    by (simp add: get_member_def get_own_def)
  from splice_removes_at_index [OF h1 h2 h3 h4 h5] h5 show ?thesis
    by (simp add: get_member_def get_own_def set_member_def put_def has_own_def)
qed

text \<open>
  C1 as stated: the first occurrence of the value is removed, and nothing is removed when the
  value is absent. With \<^verbatim>\<open>[10, 20, 30]\<close> and the value 20 nothing is removed (20 is past
  the end), and with \<^verbatim>\<open>[5, 6, 7]\<close> and the absent value 1 the element at index 1 goes.
\<close>

theorem splice_by_value_counterexample:
  "fst (updateSilent (JArr [JNum 10, JNum 20, JNum 30]) ''splice'' JUndefined (JNum 20))
     = Inr (JArr [JNum 10, JNum 20, JNum 30])
   \<and> remove1 (JNum 20) [JNum 10, JNum 20, JNum 30] = [JNum 10, JNum 30]
   \<and> fst (updateSilent (JArr [JNum 5, JNum 6, JNum 7]) ''splice'' JUndefined (JNum 1))
     = Inr (JArr [JNum 5, JNum 7])
   \<and> JNum 1 \<notin> set [JNum 5, JNum 6, JNum 7]"
  by (simp add: updateSilent_def updateHelper_update_known [OF getImmutabilitySugarCommand_table(3)]
        getNestedData_absent command_splice_def Array_splice_def)

section \<open>Properties of the command tree\<close>

text \<open>
  For every path with at least one key the tree is one single-key object per key around the
  leaf command, and for an absent path it is the leaf alone.
\<close>

lemma getNestedData_tree:
  "(ks \<noteq> [] \<longrightarrow> fst (getNestedData (JArr ks) leaf) = single_key_nesting (map ToString ks) leaf)
   \<and> fst (getNestedData JUndefined leaf) = leaf \<and> fst (getNestedData JNull leaf) = leaf"
  by (simp add: getNestedData_array getNestedData_absent)

text \<open>
  C5 at the empty sequence of keys: the leaf command does not sit at the root. \<^verbatim>\<open>pop\<close>
  returns \<^verbatim>\<open>undefined\<close>, the leaf is stored under the key \<^verbatim>\<open>undefined\<close>, and a pure
  \<^verbatim>\<open>set\<close> with the path \<^verbatim>\<open>''\<close> writes a property of that name instead of replacing
  the source.
\<close>

theorem getNestedData_empty_path:
  "getNestedData (JArr []) leaf = (JObj [(''undefined'', leaf)], JArr [])
   \<and> getPathArray (JStr []) = JArr []
   \<and> fst (updateSilent (JObj [(''a'', JNum 1)]) ''set'' (JStr []) (JNum 2))
       = Inr (JObj [(''a'', JNum 1), (''undefined'', JNum 2)])"
  by (simp add: getNestedData_empty_array updateSilent_def
        updateHelper_update_known [OF getImmutabilitySugarCommand_table(1)]
        command_names_def other_commands_def command_set_def
        get_member_def get_own_def set_member_def put_def has_own_def array_index_def is_digit_def)

section \<open>Properties of the state-binding layer\<close>

lemma getDestructPath_array:
  "getDestructPath (JArr ks) =
     Inr (case ks of [] \<Rightarrow> JUndefined | k # rest \<Rightarrow> k,
          if tl ks = [] then JNull else JArr (tl ks), JArr (tl ks))"
  by (simp add: getDestructPath_def Let_def)

lemma updateNextState_single:
  "\<not> isPlainObject path \<Longrightarrow> updateNextState type path value st = updateProp type path value st"
  by (cases path) (simp_all add: updateNextState.simps)

lemma known_command:
  "type \<in> set (map fst commands) \<Longrightarrow> \<exists>command. getImmutabilitySugarCommand type value = Inr command"
  by (auto simp: getImmutabilitySugarCommand_def commands_def)

lemma updateHelper_update_path:
  "type \<in> set (map fst commands) \<Longrightarrow>
   snd (updateHelper_update source type path value)
     = (if truthy path then case path of JArr ks \<Rightarrow> JArr (butlast ks) | _ \<Rightarrow> path else path)"
proof -
  assume "type \<in> set (map fst commands)"
  then obtain command where "getImmutabilitySugarCommand type value = Inr command"
    using known_command by blast
  then show ?thesis
    by (simp add: updateHelper_update_known getNestedData_def Let_def split: prod.splits jsval.splits)
qed

lemma generalPath_path:
  "snd (snd (generalPath type prop remainPath value st))
     = snd (updateHelper_update
              (get_own (if has_own (ToString prop) (snd st)
                        then put (ToString prop) (get_own (snd st) (ToString prop)) (fst st)
                        else fst st) (ToString prop)) type remainPath value)"
  by (simp add: generalPath_def Let_def split: prod.splits sum.splits)

lemma updateState_path:
  "snd (snd (updateState this type path value))
     = snd (snd (updateNextState type path value
          (case fst (getCachedLastState this) of
             Some cache \<Rightarrow> cache
           | None \<Rightarrow> state (snd (getCachedLastState this)), [])))"
  by (simp add: updateState_def Let_def split: prod.splits option.splits)

lemma updateProp_array_path:
  assumes "type \<in> set (map fst commands)"
  shows "snd (snd (updateProp type (JArr ks) value st)) = JArr (butlast (tl ks))"
proof (cases "tl ks = []")
  case True
  then show ?thesis
    by (simp add: updateProp_def getDestructPath_array Let_def split: prod.splits)
next
  case False
  then show ?thesis
    using updateHelper_update_path [OF assms]
    by (simp add: updateProp_def getDestructPath_array Let_def generalPath_path split: prod.splits)
qed

text \<open>
  C10, as the code has it: a pure update with one of the three operations pops the last key
  off a non-empty path array, and a bound update shifts the first key off it and pops the
  last key of what remains; the caller's array is not the one that was passed.
\<close>

theorem path_array_mutated:
  assumes "ks \<noteq> []" and "type \<in> set (map fst commands)"
  shows "snd (updateSilent source type (JArr ks) value) = JArr (butlast ks)
         \<and> snd (snd (updateState this type (JArr ks) value)) = JArr (butlast (tl ks))
         \<and> JArr (butlast ks) \<noteq> JArr ks \<and> JArr (butlast (tl ks)) \<noteq> JArr ks"
proof -
  have pure: "snd (updateSilent source type (JArr ks) value) = JArr (butlast ks)"
    using updateHelper_update_path [OF assms(2), of source "JArr ks" "value"]
    by (simp add: updateSilent_def split: prod.splits)
  have bound: "snd (snd (updateState this type (JArr ks) value)) = JArr (butlast (tl ks))"
    by (simp only: updateState_path updateNextState_single isPlainObject.simps
          updateProp_array_path [OF assms(2)] not_False_eq_True)
  have "length (butlast ks) < length ks" "length (butlast (tl ks)) < length ks"
    using assms(1) by simp_all
  then have "butlast ks \<noteq> ks" "butlast (tl ks) \<noteq> ks"
    by (metis less_irrefl)+
  with pure bound show ?thesis by simp
qed

theorem path_array_mutated_witness:
  "snd (updateSilent (JObj []) ''set'' (JArr [JStr ''a'', JStr ''b'', JStr ''c'']) (JNum 1))
     = JArr [JStr ''a'', JStr ''b'']
   \<and> snd (snd (updateState \<lparr>state = [], pendingStateQueue = None, LAST_STATE = None\<rparr> ''set''
                 (JArr [JStr ''a'', JStr ''b'', JStr ''c'']) (JNum 1)))
     = JArr [JStr ''b'']"
proof -
  have h1: "[JStr ''a'', JStr ''b'', JStr ''c''] \<noteq> []" by simp
  have h2: "''set'' \<in> set (map fst commands)" by (simp add: commands_def)
  from path_array_mutated [OF h1 h2] show ?thesis by simp
qed

text \<open>
  C10 as stated speaks of every array. An empty array is the same after a pure and after a
  bound update, and a pure update with an unknown operation throws before it touches its array.
\<close>

theorem path_array_counterexample:
  "snd (updateSilent (JObj []) ''set'' (JArr []) (JNum 1)) = JArr []
   \<and> snd (snd (updateState \<lparr>state = [], pendingStateQueue = None, LAST_STATE = None\<rparr> ''set''
                 (JArr []) (JNum 1))) = JArr []
   \<and> updateSilent (JObj []) ''remove'' (JArr [JStr ''a'']) (JNum 1)
       = (Inl NotCallable, JArr [JStr ''a''])"
proof -
  have "''set'' \<in> set (map fst commands)" by (simp add: commands_def)
  then have "snd (updateSilent (JObj []) ''set'' (JArr []) (JNum 1)) = JArr []"
    using updateHelper_update_path [of "''set''" "JObj []" "JArr []" "JNum 1"]
    by (simp add: updateSilent_def split: prod.splits)
  moreover have "snd (snd (updateState \<lparr>state = [], pendingStateQueue = None, LAST_STATE = None\<rparr>
                   ''set'' (JArr []) (JNum 1))) = JArr []"
    by (simp add: updateState_path updateNextState_single updateProp_def getDestructPath_array)
  moreover have "updateSilent (JObj []) ''remove'' (JArr [JStr ''a'']) (JNum 1)
                   = (Inl NotCallable, JArr [JStr ''a''])"
    by (simp add: updateSilent_def updateHelper_update_def getImmutabilitySugar_def
          getImmutabilitySugarCommand_def commands_def inherited_call_def Object_prototype_names_def)
  ultimately show ?thesis by simp
qed

section \<open>Properties of a bound update\<close>

lemma updateHelper_update_set_root:
  "\<not> truthy path \<Longrightarrow> updateHelper_update source ''set'' path value = (Inr value, path)"
  by (simp add: updateHelper_update_known [OF getImmutabilitySugarCommand_table(1)]
        getNestedData_absent command_set_def)



lemma getDestructPath_simple_key:
  "\<not> list_ex is_delim key \<Longrightarrow> key \<noteq> [] \<Longrightarrow>
   getDestructPath (JStr key) = Inr (JStr key, JNull, JArr [])"
proof -
  assume nd: "\<not> list_ex is_delim key" and ne: "key \<noteq> []"
  have "split_path key = [key]"
    using nd by (induction key) (auto split: list.splits)
  with ne show ?thesis by (simp add: getDestructPath_def)
qed

lemma updateState_outcome:
  assumes "updateNextState type path value
             (case fst (getCachedLastState this) of
                Some cache \<Rightarrow> cache
              | None \<Rightarrow> state (snd (getCachedLastState this)), []) = (err, (lastState', nextState), path')"
  shows "fst (updateState this type path value)
           = (case err of
                Some e \<Rightarrow> Inl e
              | None \<Rightarrow> Inr (if length (Object_keys nextState) = 1
                              then get_own nextState (hd (Object_keys nextState))
                              else JObj nextState))"
    and "pendingStateQueue (fst (snd (updateState this type path value)))
           = (case err of
                Some e \<Rightarrow> pendingStateQueue (snd (getCachedLastState this))
              | None \<Rightarrow> Some ((case pendingStateQueue (snd (getCachedLastState this)) of
                                 None \<Rightarrow> [] | Some queue \<Rightarrow> queue) @ [nextState]))"
  using assms
  by (auto simp: updateState_def Let_def setState_def split: prod.splits option.splits)

lemma updateState_committed:
  assumes "updateNextState type path value
             (case fst (getCachedLastState this) of
                Some cache \<Rightarrow> cache
              | None \<Rightarrow> state (snd (getCachedLastState this)), []) = (None, (lastState', nextState), path')"
  shows "committed (fst (snd (updateState this type path value))) = Some nextState"
  using updateState_outcome(2) [OF assms] by (simp add: committed_def)


lemma updateState_state:
  assumes "updateNextState type path value
             (case fst (getCachedLastState this) of
                Some cache \<Rightarrow> cache
              | None \<Rightarrow> state (snd (getCachedLastState this)), []) = (err, (lastState', nextState), path')"
  shows "state (fst (snd (updateState this type path value)))
           = (case fst (getCachedLastState this) of Some cache \<Rightarrow> state this | None \<Rightarrow> lastState')"
  using assms
  by (auto simp: updateState_def Let_def setState_def getCachedLastState_def
           split: prod.splits option.splits)

lemma multi_set_fragment:
  "updateNextState ''set'' (JObj [(''a'', JNum 1), (''b'', JNum 2)]) value (lastState, [])
     = (None, (lastState, [(''a'', JNum 1), (''b'', JNum 2)]), JObj [(''a'', JNum 1), (''b'', JNum 2)])"
proof -
  have a: "getDestructPath (JStr ''a'') = Inr (JStr ''a'', JNull, JArr [])"
    and b: "getDestructPath (JStr ''b'') = Inr (JStr ''b'', JNull, JArr [])"
    by (simp_all add: getDestructPath_simple_key is_delim_def)
  have put_b: "put ''b'' (JNum 2) [(''a'', JNum 1)] = [(''a'', JNum 1), (''b'', JNum 2)]"
    by (simp add: put_def has_own_def array_index_def is_digit_def)
  show ?thesis
    by (simp add: updateNextState.simps [of _ "JObj kvs" for kvs] Object_keys_def get_own_def
          updateNextState_single updateProp_def a b put_Nil put_b)
qed

text \<open>
  C3: on a host whose committed state is \<^verbatim>\<open>{a: 0, b: 0, c: 0}\<close>, whatever is pending or
  cached, \<^verbatim>\<open>boundUpdate('set', {a: 1, b: 2})\<close> hands exactly the fragment
  \<^verbatim>\<open>{a: 1, b: 2}\<close> to \<^verbatim>\<open>setState\<close> and returns \<^verbatim>\<open>{a: 1, b: 2}\<close>; \<^verbatim>\<open>c\<close> is in
  neither, and the committed state is as it was.
\<close>

theorem multi_path_set_commits_fragment:
  "fst (updateState \<lparr>state = [(''a'', JNum 0), (''b'', JNum 0), (''c'', JNum 0)],
                     pendingStateQueue = queue, LAST_STATE = cache\<rparr>
          ''set'' (JObj [(''a'', JNum 1), (''b'', JNum 2)]) value)
     = Inr (JObj [(''a'', JNum 1), (''b'', JNum 2)])
   \<and> committed (fst (snd (updateState
          \<lparr>state = [(''a'', JNum 0), (''b'', JNum 0), (''c'', JNum 0)],
            pendingStateQueue = queue, LAST_STATE = cache\<rparr>
          ''set'' (JObj [(''a'', JNum 1), (''b'', JNum 2)]) value)))
     = Some [(''a'', JNum 1), (''b'', JNum 2)]
   \<and> \<not> has_own ''c'' [(''a'', JNum 1), (''b'', JNum 2)]
   \<and> state (fst (snd (updateState
          \<lparr>state = [(''a'', JNum 0), (''b'', JNum 0), (''c'', JNum 0)],
            pendingStateQueue = queue, LAST_STATE = cache\<rparr>
          ''set'' (JObj [(''a'', JNum 1), (''b'', JNum 2)]) value)))
     = [(''a'', JNum 0), (''b'', JNum 0), (''c'', JNum 0)]"
proof -
  let ?host = "\<lparr>state = [(''a'', JNum 0), (''b'', JNum 0), (''c'', JNum 0)],
                 pendingStateQueue = queue, LAST_STATE = cache\<rparr>"
  let ?path = "JObj [(''a'', JNum 1), (''b'', JNum 2)]"
  have "fst (updateState ?host ''set'' ?path value) = Inr ?path"
    using updateState_outcome(1) [OF multi_set_fragment] by (simp add: Object_keys_def)
  moreover have "committed (fst (snd (updateState ?host ''set'' ?path value)))
                   = Some [(''a'', JNum 1), (''b'', JNum 2)]"
    using updateState_committed [OF multi_set_fragment] .
  moreover have "state (fst (snd (updateState ?host ''set'' ?path value)))
                   = [(''a'', JNum 0), (''b'', JNum 0), (''c'', JNum 0)]"
    using updateState_state [OF multi_set_fragment, of "?host" "value"]
    by (simp add: getCachedLastState_def Let_def split: option.splits)
  ultimately show ?thesis by (simp add: has_own_def)
qed

section \<open>Multi-path updates\<close>

lemma forEach_key_literal:
  "list_all (\<lambda>(k, v). get_own kvs k = v) sub \<Longrightarrow>
   forEach_key type kvs (map fst sub) st = literal_updates type sub st"
proof (induction sub arbitrary: st)
  case Nil
  show ?case by simp
next
  case (Cons kv sub)
  obtain k v where kv: "kv = (k, v)" by (cases kv)
  with Cons.prems have v: "get_own kvs k = v" and rest: "list_all (\<lambda>(k, v). get_own kvs k = v) sub"
    by simp_all
  show ?case
    using Cons.IH [OF rest] v kv
    by (simp add: updateNextState_single split: prod.splits option.splits)
qed

lemma get_own_distinct:
  "distinct (map fst kvs) \<Longrightarrow> list_all (\<lambda>(k, v). get_own kvs k = v) kvs"
  by (auto simp: list_all_iff get_own_def)

text \<open>
  C7, as the code has it: in a multi-path update every key of the mapping is one update of
  its own, made with the associated value as a literal, whether or not that value is a plain
  mapping. Only the path argument itself is expanded.
\<close>

theorem multi_path_values_literal:
  assumes "distinct (map fst kvs)"
  shows "updateNextState type (JObj kvs) value st
           = (fst (literal_updates type kvs st), snd (literal_updates type kvs st), JObj kvs)
         \<and> updateNextState type (JStr key) (JObj sub) st = updateProp type (JStr key) (JObj sub) st"
  using forEach_key_literal [OF get_own_distinct [OF assms], of type st]
  by (simp add: updateNextState.simps [of _ "JObj kvs" for kvs] Object_keys_def
        updateNextState_single split: prod.splits)

theorem multi_path_values_literal_witness:
  "updateNextState ''set'' (JObj [(''a'', JObj [(''b'', JNum 1)])]) JUndefined ([], [])
     = (None, ([], [(''a'', JObj [(''b'', JNum 1)])]), JObj [(''a'', JObj [(''b'', JNum 1)])])"
proof -
  have h: "distinct (map fst [(''a'', JObj [(''b'', JNum 1)])])" by simp
  have a: "getDestructPath (JStr ''a'') = Inr (JStr ''a'', JNull, JArr [])"
    by (simp add: getDestructPath_simple_key is_delim_def)
  from multi_path_values_literal [OF h, of "''set''" JUndefined "([], [])"] show ?thesis
    by (simp add: updateProp_def a put_Nil)
qed

text \<open>
  C7 as stated: a value that is a plain mapping is expanded into sub-updates. On the state
  \<^verbatim>\<open>{a: {b: 0, c: 0}}\<close> the call \<^verbatim>\<open>boundUpdate('set', {a: {b: 1}})\<close> commits
  \<^verbatim>\<open>{a: {b: 1}}\<close>, the mapping itself as the new value of \<^verbatim>\<open>a\<close>, exactly as
  \<^verbatim>\<open>boundUpdate('set', 'a', {b: 1})\<close> does.
\<close>

theorem nested_mapping_literal_counterexample:
  "committed (fst (snd (updateState
       \<lparr>state = [(''a'', JObj [(''b'', JNum 0), (''c'', JNum 0)])], pendingStateQueue = None,
         LAST_STATE = None\<rparr>
       ''set'' (JObj [(''a'', JObj [(''b'', JNum 1)])]) JUndefined)))
     = Some [(''a'', JObj [(''b'', JNum 1)])]
   \<and> committed (fst (snd (updateState
       \<lparr>state = [(''a'', JObj [(''b'', JNum 0), (''c'', JNum 0)])], pendingStateQueue = None,
         LAST_STATE = None\<rparr>
       ''set'' (JStr ''a'') (JObj [(''b'', JNum 1)]))))
     = Some [(''a'', JObj [(''b'', JNum 1)])]"
proof -
  have a: "getDestructPath (JStr ''a'') = Inr (JStr ''a'', JNull, JArr [])"
    by (simp add: getDestructPath_simple_key is_delim_def)
  have multi: "updateNextState ''set'' (JObj [(''a'', JObj [(''b'', JNum 1)])]) JUndefined (ls, [])
                 = (None, (ls, [(''a'', JObj [(''b'', JNum 1)])]), JObj [(''a'', JObj [(''b'', JNum 1)])])"
    for ls
    by (simp add: updateNextState.simps [of _ "JObj kvs" for kvs] Object_keys_def get_own_def
          updateNextState_single updateProp_def a put_Nil)
  have single: "updateNextState ''set'' (JStr ''a'') (JObj [(''b'', JNum 1)]) (ls, [])
                  = (None, (ls, [(''a'', JObj [(''b'', JNum 1)])]), JStr ''a'')" for ls
    by (simp add: updateNextState_single updateProp_def a put_Nil)
  show ?thesis
    using updateState_committed [OF multi] updateState_committed [OF single] by simp
qed


section \<open>Unknown operations\<close>

lemma unknown_command:
  assumes "type \<notin> set (map fst commands)" and "type \<notin> set Object_prototype_names"
  shows "getImmutabilitySugarCommand type value = Inl NotCallable"
proof -
  have "map_of commands type = None"
    using assms(1) by (simp add: map_of_eq_None_iff)
  then show ?thesis
    using assms(2) by (simp add: getImmutabilitySugarCommand_def inherited_call_def)
qed

lemma updateHelper_update_unknown:
  assumes "type \<notin> set (map fst commands)" and "type \<notin> set Object_prototype_names"
  shows "updateHelper_update source type path value = (Inl NotCallable, path)"
  by (simp add: updateHelper_update_def getImmutabilitySugar_def unknown_command [OF assms])

lemma updateProp_unknown:
  assumes "type \<notin> set (map fst commands)" and "type \<notin> set Object_prototype_names"
  shows "fst (updateProp type path value st)
           = Some (case path of
                     JUndefined \<Rightarrow> NullMember | JNull \<Rightarrow> NullMember
                   | JStr s \<Rightarrow> NotCallable | JArr ks \<Rightarrow> NotCallable
                   | _ \<Rightarrow> NoShift)"
proof -
  have "type \<noteq> ''set''"
    using assms(1) by (auto simp: commands_def)
  then show ?thesis
    by (cases path)
       (simp_all add: updateProp_def getDestructPath_def generalPath_def Let_def
          updateHelper_update_unknown [OF assms] split: prod.splits)
qed

lemma updateNextState_unknown:
  assumes "type \<notin> set (map fst commands)" and "type \<notin> set Object_prototype_names"
    and "path \<noteq> JObj []"
  shows "fst (updateNextState type path value st)
           = Some (case path of
                     JUndefined \<Rightarrow> NullMember | JNull \<Rightarrow> NullMember
                   | JBool b \<Rightarrow> NoShift | JNum n \<Rightarrow> NoShift
                   | _ \<Rightarrow> NotCallable)"
proof (cases path)
  case (JObj kvs)
  with assms(3) obtain k v rest where kvs: "kvs = (k, v) # rest"
    by (cases kvs) auto
  have "fst (updateNextState type (JStr k) (get_own kvs k) st) = Some NotCallable"
    using updateProp_unknown [OF assms(1,2), of "JStr k"] by (simp add: updateNextState_single)
  then obtain st' p where "updateNextState type (JStr k) (get_own kvs k) st = (Some NotCallable, st', p)"
    by (cases "updateNextState type (JStr k) (get_own kvs k) st") auto
  then show ?thesis
    using JObj kvs
    by (simp add: updateNextState.simps [of _ "JObj kvs" for kvs] Object_keys_def)
qed (simp_all add: updateNextState_single updateProp_unknown [OF assms(1,2)])

text \<open>
  C9, as the code has it: an operation that names neither a builder of the command table nor
  a property that the table inherits makes \<^verbatim>\<open>commands[type](value)\<close> throw. A pure update
  throws it before the path is touched. A bound update throws as well, unless its path is the
  empty mapping, and \<^verbatim>\<open>setState\<close> is not reached: the pending queue is as
  \<^verbatim>\<open>getCachedLastState\<close> left it.
\<close>

theorem unknown_operation_fails:
  assumes "type \<notin> set (map fst commands)" and "type \<notin> set Object_prototype_names"
  shows "updateSilent source type path value = (Inl NotCallable, path)
         \<and> (path \<noteq> JObj [] \<longrightarrow>
              fst (updateState this type path value)
                = Inl (case path of
                         JUndefined \<Rightarrow> NullMember | JNull \<Rightarrow> NullMember
                       | JBool b \<Rightarrow> NoShift | JNum n \<Rightarrow> NoShift
                       | _ \<Rightarrow> NotCallable)
              \<and> pendingStateQueue (fst (snd (updateState this type path value)))
                  = pendingStateQueue (snd (getCachedLastState this)))"
proof -
  have pure: "updateSilent source type path value = (Inl NotCallable, path)"
    by (cases path) (simp_all add: updateSilent_def updateHelper_update_unknown [OF assms])
  have bound: "fst (updateState this type path value)
                 = Inl (case path of
                          JUndefined \<Rightarrow> NullMember | JNull \<Rightarrow> NullMember
                        | JBool b \<Rightarrow> NoShift | JNum n \<Rightarrow> NoShift
                        | _ \<Rightarrow> NotCallable)
               \<and> pendingStateQueue (fst (snd (updateState this type path value)))
                   = pendingStateQueue (snd (getCachedLastState this))"
    if ne: "path \<noteq> JObj []"
  proof -
    let ?lastState = "case fst (getCachedLastState this) of
                        Some cache \<Rightarrow> cache
                      | None \<Rightarrow> state (snd (getCachedLastState this))"
    obtain err st' path'
      where run0: "updateNextState type path value (?lastState, []) = (err, st', path')"
      using prod_cases3 by blast
    obtain lastState' nextState where "st' = (lastState', nextState)"
      by (cases st')
    with run0 have run:
      "updateNextState type path value (?lastState, []) = (err, (lastState', nextState), path')"
      by simp
    have "err = Some (case path of
                        JUndefined \<Rightarrow> NullMember | JNull \<Rightarrow> NullMember
                      | JBool b \<Rightarrow> NoShift | JNum n \<Rightarrow> NoShift
                      | _ \<Rightarrow> NotCallable)"
      using updateNextState_unknown [OF assms ne, of "value" "(?lastState, [])"] run by simp
    then show ?thesis
      using updateState_outcome [OF run] by simp
  qed
  from pure bound show ?thesis by blast
qed

theorem unknown_operation_fails_witness:
  "updateSilent (JObj [(''a'', JNum 1)]) ''remove'' (JStr ''a'') (JNum 1) = (Inl NotCallable, JStr ''a'')
   \<and> fst (updateState \<lparr>state = [(''a'', JNum 1)], pendingStateQueue = None, LAST_STATE = None\<rparr>
            ''remove'' (JStr ''a'') (JNum 1)) = Inl NotCallable
   \<and> pendingStateQueue (fst (snd (updateState
            \<lparr>state = [(''a'', JNum 1)], pendingStateQueue = None, LAST_STATE = None\<rparr>
            ''remove'' (JStr ''a'') (JNum 1)))) = None"
proof -
  have h1: "''remove'' \<notin> set (map fst commands)" by (simp add: commands_def)
  have h2: "''remove'' \<notin> set Object_prototype_names" by (simp add: Object_prototype_names_def)
  from unknown_operation_fails [OF h1 h2, of "JObj [(''a'', JNum 1)]" "JStr ''a''" "JNum 1"
      "\<lparr>state = [(''a'', JNum 1)], pendingStateQueue = None, LAST_STATE = None\<rparr>"]
  show ?thesis by (simp add: getCachedLastState_def)
qed

text \<open>
  C9 as stated speaks of every operation outside \<^verbatim>\<open>set\<close>, \<^verbatim>\<open>push\<close> and \<^verbatim>\<open>splice\<close>.
  \<^verbatim>\<open>commands['constructor']\<close> is \<^verbatim>\<open>Object\<close>, which hands the object \<^verbatim>\<open>{}\<close> back as the
  command tree: the pure update returns its source and nothing fails. A bound update whose
  path is the empty mapping never looks a builder up: it commits the empty fragment.
\<close>

theorem unknown_operation_counterexample:
  "fst (updateSilent (JObj [(''a'', JNum 1)]) ''constructor'' JUndefined (JObj []))
     = Inr (JObj [(''a'', JNum 1)])
   \<and> fst (updateState \<lparr>state = [(''a'', JNum 1)], pendingStateQueue = None, LAST_STATE = None\<rparr>
            ''remove'' (JObj []) JUndefined) = Inr (JObj [])
   \<and> committed (fst (snd (updateState
            \<lparr>state = [(''a'', JNum 1)], pendingStateQueue = None, LAST_STATE = None\<rparr>
            ''remove'' (JObj []) JUndefined))) = Some []"
proof -
  have "fst (updateSilent (JObj [(''a'', JNum 1)]) ''constructor'' JUndefined (JObj []))
          = Inr (JObj [(''a'', JNum 1)])"
    by (simp add: updateSilent_def updateHelper_update_def getImmutabilitySugar_def
          getImmutabilitySugarCommand_def commands_def inherited_call_def
          Object_prototype_names_def getNestedData_absent)
  moreover have run: "updateNextState ''remove'' (JObj []) JUndefined (ls, []) = (None, (ls, []), JObj [])"
    for ls
    by (simp add: updateNextState.simps [of _ "JObj kvs" for kvs] Object_keys_def)
  ultimately show ?thesis
    using updateState_outcome(1) [OF run] updateState_committed [OF run]
    by (simp add: Object_keys_def)
qed

section \<open>Colliding paths\<close>

lemma updateProp_step:
  assumes "getDestructPath (JStr k) = Inr (prop, remain, shifted)"
    and "fst (updateHelper_update
               (if has_own (ToString prop) nextState then get_own nextState (ToString prop)
                else get_own lastState (ToString prop)) type remain v) = Inr a"
  shows "\<exists>lastState'. updateProp type (JStr k) v (lastState, nextState)
           = (None, (lastState', put (ToString prop) a nextState), JStr k)"
proof (cases "\<not> truthy remain \<and> type = ''set''")
  case True
  with assms(2) have "a = v" by (simp add: updateHelper_update_set_root)
  with True assms(1) show ?thesis by (simp add: updateProp_def)
next
  case False
  then show ?thesis
    using assms
    by (cases "updateHelper_update
                 (if has_own (ToString prop) nextState then get_own nextState (ToString prop)
                  else get_own lastState (ToString prop)) type remain v")
       (auto simp: updateProp_def generalPath_def Let_def get_own_put_same)
qed











section \<open>Calls in the same tick\<close>

lemma set_member_of_path:
  "key \<notin> set command_names \<Longrightarrow>
   fst (updateHelper_update object ''set'' (JArr [JStr key]) v)
     = (case get_member object key of Inl e \<Rightarrow> Inl e | Inr child \<Rightarrow> set_member object key v)"
proof -
  assume key: "key \<notin> set command_names"
  have "fst (updateHelper_update object ''set'' (JArr [JStr key]) v)
          = immutabilityUpdate object (JObj [(key, JObj [(''$set'', v)])])"
    by (simp add: updateHelper_update_known [OF getImmutabilitySugarCommand_table(1)]
          getNestedData_array)
  also have "\<dots> = (case get_member object key of Inl e \<Rightarrow> Inl e | Inr child \<Rightarrow> set_member object key v)"
    by (subst applier_descend [OF key]) (simp add: command_set_def split: sum.splits)
  finally show ?thesis .
qed

lemma set_member_letter:
  assumes "get_member object key = Inr child" and "set_member object key v = Inr object'"
    and "array_index key = None"
  shows "\<exists>kvs. object = JObj kvs \<and> object' = JObj (put key v kvs)"
  using assms by (cases object) (auto simp: get_member_def set_member_def)

lemma getCachedLastState_pending:
  assumes "pendingStateQueue this = Some (queue @ [fragment])"
  shows "\<exists>cache. fst (getCachedLastState this) = Some (Object_assign cache fragment)"
  using assms by (cases "LAST_STATE this") (auto simp: getCachedLastState_def Let_def)

text \<open>
  C2: when a first bound call has set \<^verbatim>\<open>a.x\<close> to 1 and the host has not committed, a
  second bound call that sets \<^verbatim>\<open>a.y\<close> to 2 finds the first call's value of \<^verbatim>\<open>a\<close> in the
  cache, and the value it returns and hands to \<^verbatim>\<open>setState\<close> for \<^verbatim>\<open>a\<close> is that value
  with \<^verbatim>\<open>y\<close> set to 2: it holds both \<^verbatim>\<open>x = 1\<close> and \<^verbatim>\<open>y = 2\<close>.
\<close>

theorem same_tick_calls_accumulate:
  assumes "updateState this ''set'' (JStr ''a.x'') (JNum 1) = (Inr r1, this1, path1)"
  shows "\<exists>kvs cache.
           r1 = JObj kvs \<and> get_own kvs ''x'' = JNum 1
           \<and> fst (getCachedLastState this1) = Some cache \<and> get_own cache ''a'' = r1
           \<and> fst (updateState this1 ''set'' (JStr ''a.y'') (JNum 2)) = Inr (JObj (put ''y'' (JNum 2) kvs))
           \<and> committed (fst (snd (updateState this1 ''set'' (JStr ''a.y'') (JNum 2))))
               = Some [(''a'', JObj (put ''y'' (JNum 2) kvs))]
           \<and> get_own (put ''y'' (JNum 2) kvs) ''x'' = JNum 1
           \<and> get_own (put ''y'' (JNum 2) kvs) ''y'' = JNum 2"
proof -
  have ax: "getDestructPath (JStr ''a.x'') = Inr (JStr ''a'', JArr [JStr ''x''], JArr [JStr ''x''])"
    and ay: "getDestructPath (JStr ''a.y'') = Inr (JStr ''a'', JArr [JStr ''y''], JArr [JStr ''y''])"
    by (simp_all add: getDestructPath_def is_delim_def Let_def)
  have x: "''x'' \<notin> set command_names" and y: "''y'' \<notin> set command_names"
    by (simp_all add: command_names_def other_commands_def)
  have ix: "array_index ''x'' = None" and iy: "array_index ''y'' = None"
    by (simp_all add: array_index_def is_digit_def)
  let ?base = "working_lastState this"
  \<comment> \<open>the first call\<close>
  obtain err1 ls1 ns1 p1 where run1:
    "updateNextState ''set'' (JStr ''a.x'') (JNum 1) (?base, []) = (err1, (ls1, ns1), p1)"
    by (metis prod_cases3 surj_pair)
  have out1: "fst (updateState this ''set'' (JStr ''a.x'') (JNum 1))
                = (case err1 of
                     Some e \<Rightarrow> Inl e
                   | None \<Rightarrow> Inr (if length (Object_keys ns1) = 1
                                   then get_own ns1 (hd (Object_keys ns1)) else JObj ns1))"
    and queue1: "pendingStateQueue (fst (snd (updateState this ''set'' (JStr ''a.x'') (JNum 1))))
                = (case err1 of
                     Some e \<Rightarrow> pendingStateQueue (snd (getCachedLastState this))
                   | None \<Rightarrow> Some ((case pendingStateQueue (snd (getCachedLastState this)) of
                                      None \<Rightarrow> [] | Some queue \<Rightarrow> queue) @ [ns1]))"
    using updateState_outcome [OF run1 [unfolded working_lastState_def]] by simp_all
  from assms out1 have err1: "err1 = None"
    by (cases err1) simp_all
  have step1: "updateProp ''set'' (JStr ''a.x'') (JNum 1) (?base, []) = (None, (ls1, ns1), p1)"
    using run1 err1 by (simp add: updateNextState_single)
  obtain v1 where upd1: "fst (updateHelper_update (get_own ?base ''a'') ''set'' (JArr [JStr ''x'']) (JNum 1)) = Inr v1"
    and ns1: "ns1 = [(''a'', v1)]"
    using step1
    by (cases "updateHelper_update (get_own ?base ''a'') ''set'' (JArr [JStr ''x'']) (JNum 1)")
       (auto simp: updateProp_def ax generalPath_def Let_def has_own_def put_Nil split: sum.splits)
  from upd1 obtain child where child: "get_member (get_own ?base ''a'') ''x'' = Inr child"
    and set1: "set_member (get_own ?base ''a'') ''x'' (JNum 1) = Inr v1"
    by (auto simp: set_member_of_path [OF x] split: sum.splits)
  obtain kvs0 where v1: "v1 = JObj (put ''x'' (JNum 1) kvs0)"
    using set_member_letter [OF child set1 ix] by blast
  from assms out1 err1 ns1 have r1: "r1 = v1"
    by (simp add: Object_keys_def get_own_def)
  from assms queue1 err1 ns1 obtain queue where pending: "pendingStateQueue this1 = Some (queue @ [[(''a'', v1)]])"
    by simp
  \<comment> \<open>the second call\<close>
  obtain cache0 where cache: "fst (getCachedLastState this1) = Some (Object_assign cache0 [(''a'', v1)])"
    using getCachedLastState_pending [OF pending] by blast
  let ?cache = "Object_assign cache0 [(''a'', v1)]"
  have cached_a: "get_own ?cache ''a'' = v1"
    by (simp add: Object_assign_def get_own_put_same)
  let ?kvs = "put ''x'' (JNum 1) kvs0"
  have upd2: "fst (updateHelper_update v1 ''set'' (JArr [JStr ''y'']) (JNum 2))
                = Inr (JObj (put ''y'' (JNum 2) ?kvs))"
    by (simp add: set_member_of_path [OF y] v1 get_member_def set_member_def)
  obtain ls2 where step2:
    "updateProp ''set'' (JStr ''a.y'') (JNum 2) (?cache, [])
       = (None, (ls2, [(''a'', JObj (put ''y'' (JNum 2) ?kvs))]), JStr ''a.y'')"
    using updateProp_step [OF ay, of "[]" ?cache "''set''" "JNum 2" "JObj (put ''y'' (JNum 2) ?kvs)"]
          upd2 cached_a
    by (auto simp: has_own_def put_Nil)
  have run2: "updateNextState ''set'' (JStr ''a.y'') (JNum 2)
                (case fst (getCachedLastState this1) of
                   Some cache \<Rightarrow> cache
                 | None \<Rightarrow> state (snd (getCachedLastState this1)), [])
                = (None, (ls2, [(''a'', JObj (put ''y'' (JNum 2) ?kvs))]), JStr ''a.y'')"
    using step2 cache by (simp add: updateNextState_single)
  have "fst (updateState this1 ''set'' (JStr ''a.y'') (JNum 2)) = Inr (JObj (put ''y'' (JNum 2) ?kvs))"
    using updateState_outcome(1) [OF run2] by (simp add: Object_keys_def get_own_def)
  moreover have "committed (fst (snd (updateState this1 ''set'' (JStr ''a.y'') (JNum 2))))
                   = Some [(''a'', JObj (put ''y'' (JNum 2) ?kvs))]"
    using updateState_committed [OF run2] .
  moreover have "get_own (put ''y'' (JNum 2) ?kvs) ''x'' = JNum 1"
    by (simp add: get_own_put_other get_own_put_same)
  moreover have "get_own ?kvs ''x'' = JNum 1" "get_own (put ''y'' (JNum 2) ?kvs) ''y'' = JNum 2"
    by (simp_all add: get_own_put_same)
  ultimately show ?thesis
    using r1 v1 cache cached_a by blast
qed


theorem same_tick_calls_accumulate_witness:
  "updateState \<lparr>state = [(''a'', JObj [(''z'', JNum 0)])], pendingStateQueue = None, LAST_STATE = None\<rparr>
     ''set'' (JStr ''a.x'') (JNum 1)
     = (Inr (JObj [(''z'', JNum 0), (''x'', JNum 1)]),
        \<lparr>state = [(''a'', JObj [(''z'', JNum 0)])],
          pendingStateQueue = Some [[(''a'', JObj [(''z'', JNum 0), (''x'', JNum 1)])]],
          LAST_STATE = None\<rparr>,
        JStr ''a.x'')
   \<and> fst (updateState
          \<lparr>state = [(''a'', JObj [(''z'', JNum 0)])],
            pendingStateQueue = Some [[(''a'', JObj [(''z'', JNum 0), (''x'', JNum 1)])]],
            LAST_STATE = None\<rparr>
          ''set'' (JStr ''a.y'') (JNum 2))
     = Inr (JObj [(''z'', JNum 0), (''x'', JNum 1), (''y'', JNum 2)])
   \<and> committed (fst (snd (updateState
          \<lparr>state = [(''a'', JObj [(''z'', JNum 0)])],
            pendingStateQueue = Some [[(''a'', JObj [(''z'', JNum 0), (''x'', JNum 1)])]],
            LAST_STATE = None\<rparr>
          ''set'' (JStr ''a.y'') (JNum 2))))
     = Some [(''a'', JObj [(''z'', JNum 0), (''x'', JNum 1), (''y'', JNum 2)])]"
proof -
  let ?host = "\<lparr>state = [(''a'', JObj [(''z'', JNum 0)])], pendingStateQueue = None,
                 LAST_STATE = None\<rparr>"
  let ?host1 = "\<lparr>state = [(''a'', JObj [(''z'', JNum 0)])],
                  pendingStateQueue = Some [[(''a'', JObj [(''z'', JNum 0), (''x'', JNum 1)])]],
                  LAST_STATE = None\<rparr>"
  have ax: "getDestructPath (JStr ''a.x'') = Inr (JStr ''a'', JArr [JStr ''x''], JArr [JStr ''x''])"
    by (simp add: getDestructPath_def is_delim_def Let_def)
  have upd: "updateHelper_update (JObj [(''z'', JNum 0)]) ''set'' (JArr [JStr ''x'']) (JNum 1)
               = (Inr (JObj [(''z'', JNum 0), (''x'', JNum 1)]), JArr [])"
    by (simp add: updateHelper_update_known [OF getImmutabilitySugarCommand_table(1)]
          getNestedData_array command_set_def get_member_def set_member_def put_def has_own_def
          get_own_def array_index_def is_digit_def other_commands_def)
  have first: "updateState ?host ''set'' (JStr ''a.x'') (JNum 1)
                 = (Inr (JObj [(''z'', JNum 0), (''x'', JNum 1)]), ?host1, JStr ''a.x'')"
    by (simp add: updateState_def getCachedLastState_def updateNextState_single updateProp_def ax
          generalPath_def has_own_def get_own_def upd put_Nil Object_keys_def setState_def)
  from same_tick_calls_accumulate [OF first] obtain kvs
    where r1: "JObj [(''z'', JNum 0), (''x'', JNum 1)] = JObj kvs"
      and r2: "fst (updateState ?host1 ''set'' (JStr ''a.y'') (JNum 2))
                 = Inr (JObj (put ''y'' (JNum 2) kvs))"
      and fragment: "committed (fst (snd (updateState ?host1 ''set'' (JStr ''a.y'') (JNum 2))))
                 = Some [(''a'', JObj (put ''y'' (JNum 2) kvs))]"
    by blast
  from r1 have kvs: "kvs = [(''z'', JNum 0), (''x'', JNum 1)]"
    by simp
  have "put ''y'' (JNum 2) kvs = [(''z'', JNum 0), (''x'', JNum 1), (''y'', JNum 2)]"
    unfolding kvs by (simp add: put_def has_own_def array_index_def is_digit_def)
  with first r2 fragment show ?thesis
    by simp
qed

end
